theory Spec2Isabelle
  imports Main "HOL-Library.Sublist" "HOL-Library.AList"
begin

section \<open>Capability descriptors and the host permission API\<close>

text \<open>
  The module constant \<^verbatim>\<open>permissions\<close> lists the seven capability names, and the type
  \<^verbatim>\<open>PName\<close> is the union of its elements.
\<close>

datatype PName = Env | Read | Write | Net | Run | Hrtime | Ffi

definition permissions :: "PName list" where
  "permissions = [Env, Read, Write, Net, Run, Hrtime, Ffi]"

text \<open>The JavaScript string behind each name (the value a \<^verbatim>\<open>switch\<close> compares).\<close>

fun name_string :: "PName \<Rightarrow> string" where
  "name_string Env = ''env''"
| "name_string Read = ''read''"
| "name_string Write = ''write''"
| "name_string Net = ''net''"
| "name_string Run = ''run''"
| "name_string Hrtime = ''hrtime''"
| "name_string Ffi = ''ffi''"

text \<open>
  A permission descriptor is an object with a \<^verbatim>\<open>name\<close> and at most one of the optional
  properties \<^verbatim>\<open>path\<close>, \<^verbatim>\<open>host\<close>, \<^verbatim>\<open>command\<close>, \<^verbatim>\<open>variable\<close>. A property that is absent and a
  property that holds \<^verbatim>\<open>undefined\<close> are both \<open>None\<close>.
\<close>

record descriptor =
  name :: PName
  path :: "string option"
  host :: "string option"
  command :: "string option"
  variable :: "string option"

text \<open>The object literal \<^verbatim>\<open>{ name }\<close>.\<close>

definition unscoped :: "PName \<Rightarrow> descriptor" where
  "unscoped n = \<lparr>name = n, path = None, host = None, command = None, variable = None\<rparr>"

text \<open>\<^verbatim>\<open>MaybeArray<T> = T | T[]\<close>; an optional parameter of that type is an \<open>option\<close> of it.\<close>

datatype 'a MaybeArray = One 'a | Many "'a list"

text \<open>
  Modelled from the spec: the host's answer type \<^verbatim>\<open>GrantState\<close> (the \<^verbatim>\<open>state\<close> of the
  status object the host API resolves to) is declared by the runtime, not by this
  repository; it is one of granted, denied and prompt.
\<close>

datatype GrantState = Granted | Denied | Prompt

text \<open>
  The two host primitives \<^verbatim>\<open>Deno.permissions.request\<close> and \<^verbatim>\<open>Deno.permissions.query\<close> are
  parameters of the model: each maps a descriptor to the state the host resolves to.
\<close>

record Deno_permissions =
  request :: "descriptor \<Rightarrow> GrantState"
  query :: "descriptor \<Rightarrow> GrantState"

text \<open>The elements of a \<^verbatim>\<open>MaybeArray\<close>, in order.\<close>

fun elements :: "'a MaybeArray \<Rightarrow> 'a list" where
  "elements (One x) = [x]"
| "elements (Many xs) = xs"

text \<open>
  The error the interface throws: \<^verbatim>\<open>new Error(msg)\<close>.
\<close>

datatype error = Error string

definition PermissionDenied :: error where
  "PermissionDenied = Error ''Permission denied''"

section \<open>The descriptor factory (class Permission)\<close>

text \<open>
  Each static method, at a single optional value. The list overloads of the class map
  the single-value method over the list; the manager never reaches them, since its own
  \<^verbatim>\<open>desc\<close> expands a list before it delegates.
\<close>

definition Permission_env :: "string option \<Rightarrow> descriptor" where
  "Permission_env v = (unscoped Env)\<lparr>variable := v\<rparr>"

definition Permission_read :: "string option \<Rightarrow> descriptor" where
  "Permission_read p = (unscoped Read)\<lparr>path := p\<rparr>"

definition Permission_write :: "string option \<Rightarrow> descriptor" where
  "Permission_write p = (unscoped Write)\<lparr>path := p\<rparr>"

definition Permission_net :: "string option \<Rightarrow> descriptor" where
  "Permission_net h = (unscoped Net)\<lparr>host := h\<rparr>"

definition Permission_run :: "string option \<Rightarrow> descriptor" where
  "Permission_run c = (unscoped Run)\<lparr>command := c\<rparr>"

definition Permission_ffi :: "string option \<Rightarrow> descriptor" where
  "Permission_ffi p = (unscoped Ffi)\<lparr>path := p\<rparr>"

definition Permission_hrtime :: descriptor where
  "Permission_hrtime = unscoped Hrtime"

text \<open>The indexed call \<^verbatim>\<open>Permission[name](o)\<close>; \<^verbatim>\<open>hrtime\<close> takes no parameter.\<close>

fun Permission :: "PName \<Rightarrow> string option \<Rightarrow> descriptor" where
  "Permission Env v = Permission_env v"
| "Permission Read v = Permission_read v"
| "Permission Write v = Permission_write v"
| "Permission Net v = Permission_net v"
| "Permission Run v = Permission_run v"
| "Permission Ffi v = Permission_ffi v"
| "Permission Hrtime v = Permission_hrtime"

text \<open>
  \<^verbatim>\<open>desc(name, o)\<close> of the manager. \<open>desc1\<close> is its overload at a single optional string
  (the two non-array branches), \<open>desc\<close> the implementation signature.
\<close>

definition desc1 :: "PName \<Rightarrow> string option \<Rightarrow> descriptor" where
  "desc1 n v = (if n \<noteq> Hrtime then Permission n v else Permission_hrtime)"

fun desc :: "PName \<Rightarrow> string MaybeArray option \<Rightarrow> descriptor MaybeArray" where
  "desc n (Some (Many vs)) = Many (map (\<lambda>v. desc1 n (Some v)) vs)"
| "desc n (Some (One v)) = One (desc1 n (Some v))"
| "desc n None = One (desc1 n None)"

section \<open>The permission manager\<close>

text \<open>
  The state the operations act on: the manager's field \<^verbatim>\<open>permissions\<close> (a container of
  promises of booleans; a promise is represented by the boolean it resolves to), and,
  on the host's side, the calls of \<^verbatim>\<open>request\<close> and of \<^verbatim>\<open>query\<close> received so far, in order.
  The container is an \<^verbatim>\<open>Array\<close> in the manager of \<^verbatim>\<open>PermissionManager.ts\<close> (type \<open>manager\<close>)
  and a \<^verbatim>\<open>Map\<close> keyed by the capability name in the earlier manager (type
  \<open>early_manager\<close>, an association list in insertion order).
\<close>

record 'p world =
  this_permissions :: "'p"
  requested :: "descriptor list"
  queried :: "descriptor list"

type_synonym manager = "bool list world"

type_synonym early_manager = "(PName \<times> bool) list world"

text \<open>\<^verbatim>\<open>getInstance()\<close> at first access: a manager with nothing accumulated.\<close>

definition getInstance :: manager where
  "getInstance = \<lparr>this_permissions = [], requested = [], queried = []\<rparr>"

definition requestPermission :: "Deno_permissions \<Rightarrow> descriptor \<Rightarrow> 'p world \<Rightarrow> bool \<times> 'p world" where
  "requestPermission D d w =
     (request D d = Granted, w\<lparr>requested := requested w @ [d]\<rparr>)"

definition query_internal :: "Deno_permissions \<Rightarrow> descriptor \<Rightarrow> 'p world \<Rightarrow> bool \<times> 'p world" where
  "query_internal D d w =
     (query D d = Granted, w\<lparr>queried := queried w @ [d]\<rparr>)"

text \<open>\<^verbatim>\<open>this.permissions.push(this.requestPermission(d))\<close>.\<close>

definition push_request :: "Deno_permissions \<Rightarrow> descriptor \<Rightarrow> manager \<Rightarrow> manager" where
  "push_request D d w =
     (case requestPermission D d w of
        (p, w') \<Rightarrow> w'\<lparr>this_permissions := this_permissions w' @ [p]\<rparr>)"

text \<open>The argument of \<^verbatim>\<open>pushPermission\<close>: the string \<^verbatim>\<open>"*"\<close> or a descriptor.\<close>

datatype push_arg = Star | Perm descriptor

fun pushPermission :: "Deno_permissions \<Rightarrow> push_arg \<Rightarrow> manager \<Rightarrow> manager" where
  "pushPermission D Star w = fold (\<lambda>n. push_request D (unscoped n)) permissions w"
| "pushPermission D (Perm d) w = push_request D d w"

fun permission :: "Deno_permissions \<Rightarrow> PName \<Rightarrow> string MaybeArray option \<Rightarrow> manager \<Rightarrow> manager" where
  "permission D n (Some (Many vs)) w =
     fold (\<lambda>v. pushPermission D (Perm (desc1 n (Some v)))) vs w"
| "permission D n (Some (One v)) w = pushPermission D (Perm (desc1 n (Some v))) w"
| "permission D n None w = pushPermission D (Perm (desc1 n None)) w"

text \<open>The shorthands \<^verbatim>\<open>all\<close>, \<^verbatim>\<open>env\<close>, \<^verbatim>\<open>read\<close>, \<^verbatim>\<open>write\<close>, \<^verbatim>\<open>net\<close>, \<^verbatim>\<open>run\<close>, \<^verbatim>\<open>ffi\<close> and \<^verbatim>\<open>hrtime\<close> of a manager \<^verbatim>\<open>pm\<close>.\<close>

definition pm_all :: "Deno_permissions \<Rightarrow> manager \<Rightarrow> manager" where
  "pm_all D w = pushPermission D Star w"

definition pm_env :: "Deno_permissions \<Rightarrow> string MaybeArray option \<Rightarrow> manager \<Rightarrow> manager" where
  "pm_env D v w = permission D Env v w"

definition pm_read :: "Deno_permissions \<Rightarrow> string MaybeArray option \<Rightarrow> manager \<Rightarrow> manager" where
  "pm_read D v w = permission D Read v w"

definition pm_write :: "Deno_permissions \<Rightarrow> string MaybeArray option \<Rightarrow> manager \<Rightarrow> manager" where
  "pm_write D v w = permission D Write v w"

definition pm_net :: "Deno_permissions \<Rightarrow> string MaybeArray option \<Rightarrow> manager \<Rightarrow> manager" where
  "pm_net D v w = permission D Net v w"

definition pm_run :: "Deno_permissions \<Rightarrow> string MaybeArray option \<Rightarrow> manager \<Rightarrow> manager" where
  "pm_run D v w = permission D Run v w"

definition pm_ffi :: "Deno_permissions \<Rightarrow> string MaybeArray option \<Rightarrow> manager \<Rightarrow> manager" where
  "pm_ffi D v w = permission D Ffi v w"

definition pm_hrtime :: "Deno_permissions \<Rightarrow> manager \<Rightarrow> manager" where
  "pm_hrtime D w = permission D Hrtime None w"

text \<open>
  \<^verbatim>\<open>o.map(v => this.can(n, v))\<close>: each element is a single string, so the inner call takes
  the non-array branch \<^verbatim>\<open>this.query(desc(n, v))\<close>. The queries start in list order; the
  list of results is what \<^verbatim>\<open>Promise.all\<close> resolves to.
\<close>

fun query_each :: "Deno_permissions \<Rightarrow> PName \<Rightarrow> string list \<Rightarrow> manager \<Rightarrow> bool list \<times> manager" where
  "query_each D n [] w = ([], w)"
| "query_each D n (v # vs) w =
     (case query_internal D (desc1 n (Some v)) w of
        (b, w') \<Rightarrow> (case query_each D n vs w' of (bs, w'') \<Rightarrow> (b # bs, w'')))"

fun can :: "Deno_permissions \<Rightarrow> PName \<Rightarrow> string MaybeArray option \<Rightarrow> manager \<Rightarrow> bool \<times> manager" where
  "can D n (Some (Many vs)) w =
     (case query_each D n vs w of (bs, w') \<Rightarrow> (False \<in> set bs, w'))"
| "can D n (Some (One v)) w = query_internal D (desc1 n (Some v)) w"
| "can D n None w = query_internal D (desc1 n None) w"

definition settle :: "manager \<Rightarrow> bool" where
  "settle w = (False \<notin> set (this_permissions w))"

definition ensure :: "manager \<Rightarrow> error + unit" where
  "ensure w = (if \<not> settle w then Inl (Error ''Permission denied'') else Inr ())"

subsection \<open>The public interface as a step function\<close>

text \<open>
  One call of a public method of the manager, and what the caller sees of it: the
  manager itself (the chainable methods), a boolean, nothing, or a thrown error.
\<close>

datatype call =
    Call_all
  | Call_permission PName "string MaybeArray option"
  | Call_env "string MaybeArray option"
  | Call_read "string MaybeArray option"
  | Call_write "string MaybeArray option"
  | Call_net "string MaybeArray option"
  | Call_run "string MaybeArray option"
  | Call_ffi "string MaybeArray option"
  | Call_hrtime
  | Call_can PName "string MaybeArray option"
  | Call_settle
  | Call_ensure

datatype outcome = Returned_this | Returned_bool bool | Returned_void | Thrown error

fun step :: "Deno_permissions \<Rightarrow> call \<Rightarrow> manager \<Rightarrow> outcome \<times> manager" where
  "step D Call_all w = (Returned_this, pm_all D w)"
| "step D (Call_permission n v) w = (Returned_this, permission D n v w)"
| "step D (Call_env v) w = (Returned_this, pm_env D v w)"
| "step D (Call_read v) w = (Returned_this, pm_read D v w)"
| "step D (Call_write v) w = (Returned_this, pm_write D v w)"
| "step D (Call_net v) w = (Returned_this, pm_net D v w)"
| "step D (Call_run v) w = (Returned_this, pm_run D v w)"
| "step D (Call_ffi v) w = (Returned_this, pm_ffi D v w)"
| "step D Call_hrtime w = (Returned_this, pm_hrtime D w)"
| "step D (Call_can n v) w = (case can D n v w of (b, w') \<Rightarrow> (Returned_bool b, w'))"
| "step D Call_settle w = (Returned_bool (settle w), w)"
| "step D Call_ensure w =
     (case ensure w of Inl e \<Rightarrow> (Thrown e, w) | Inr u \<Rightarrow> (Returned_void, w))"

definition run_calls :: "Deno_permissions \<Rightarrow> call list \<Rightarrow> manager \<Rightarrow> manager" where
  "run_calls D cs w = fold (\<lambda>c w'. snd (step D c w')) cs w"

section \<open>The earlier manager (Map keyed by capability name, inline descriptors)\<close>

text \<open>
  The operator \<^verbatim>\<open>a || b\<close> on strings: \<^verbatim>\<open>a\<close> when it is truthy (not the empty string),
  otherwise \<^verbatim>\<open>b\<close>.
\<close>

definition js_or :: "string \<Rightarrow> string \<Rightarrow> string" where
  "js_or a b = (if a \<noteq> [] then a else b)"

text \<open>
  The inline \<^verbatim>\<open>desc\<close>: a \<^verbatim>\<open>switch\<close> on the name, whose fourth label is the expression
  \<^verbatim>\<open>"read" || "write" || "ffi"\<close>.
\<close>

definition early_desc :: "PName \<Rightarrow> string option \<Rightarrow> descriptor" where
  "early_desc n optional =
     (if name_string n = ''net'' then (unscoped n)\<lparr>host := optional\<rparr>
      else if name_string n = ''run'' then (unscoped n)\<lparr>command := optional\<rparr>
      else if name_string n = ''env'' then (unscoped n)\<lparr>variable := optional\<rparr>
      else if name_string n = js_or (js_or ''read'' ''write'') ''ffi''
        then (unscoped n)\<lparr>path := optional\<rparr>
      else unscoped n)"

definition early_getInstance :: early_manager where
  "early_getInstance = \<lparr>this_permissions = [], requested = [], queried = []\<rparr>"

text \<open>\<^verbatim>\<open>this.permissions.has(k)\<close> and \<^verbatim>\<open>this.permissions.set(k, this.requestPermission(d))\<close>.\<close>

definition has :: "early_manager \<Rightarrow> PName \<Rightarrow> bool" where
  "has w k = (k \<in> fst ` set (this_permissions w))"

definition set_request :: "Deno_permissions \<Rightarrow> PName \<Rightarrow> descriptor \<Rightarrow> early_manager \<Rightarrow> early_manager" where
  "set_request D k d w =
     (case requestPermission D d w of
        (p, w') \<Rightarrow> w'\<lparr>this_permissions := AList.update k p (this_permissions w')\<rparr>)"

fun early_pushPermission :: "Deno_permissions \<Rightarrow> push_arg \<Rightarrow> early_manager \<Rightarrow> early_manager" where
  "early_pushPermission D Star w =
     fold (\<lambda>n w'. if has w' n then w' else set_request D n (unscoped n) w') permissions w"
| "early_pushPermission D (Perm d) w =
     (if \<not> has w (name d) then set_request D (name d) d w else w)"

definition early_all :: "Deno_permissions \<Rightarrow> early_manager \<Rightarrow> early_manager" where
  "early_all D w = early_pushPermission D Star w"

definition early_env :: "Deno_permissions \<Rightarrow> string option \<Rightarrow> early_manager \<Rightarrow> early_manager" where
  "early_env D v w = early_pushPermission D (Perm ((unscoped Env)\<lparr>variable := v\<rparr>)) w"

definition early_read :: "Deno_permissions \<Rightarrow> string option \<Rightarrow> early_manager \<Rightarrow> early_manager" where
  "early_read D p w = early_pushPermission D (Perm ((unscoped Read)\<lparr>path := p\<rparr>)) w"

definition early_write :: "Deno_permissions \<Rightarrow> string option \<Rightarrow> early_manager \<Rightarrow> early_manager" where
  "early_write D p w = early_pushPermission D (Perm ((unscoped Write)\<lparr>path := p\<rparr>)) w"

definition early_net :: "Deno_permissions \<Rightarrow> string option \<Rightarrow> early_manager \<Rightarrow> early_manager" where
  "early_net D h w = early_pushPermission D (Perm ((unscoped Net)\<lparr>host := h\<rparr>)) w"

definition early_run :: "Deno_permissions \<Rightarrow> string option \<Rightarrow> early_manager \<Rightarrow> early_manager" where
  "early_run D c w = early_pushPermission D (Perm ((unscoped Run)\<lparr>command := c\<rparr>)) w"

definition early_hrtime :: "Deno_permissions \<Rightarrow> early_manager \<Rightarrow> early_manager" where
  "early_hrtime D w = early_pushPermission D (Perm (unscoped Hrtime)) w"

definition early_ffi :: "Deno_permissions \<Rightarrow> string option \<Rightarrow> early_manager \<Rightarrow> early_manager" where
  "early_ffi D p w = early_pushPermission D (Perm ((unscoped Ffi)\<lparr>path := p\<rparr>)) w"

definition early_can :: "Deno_permissions \<Rightarrow> PName \<Rightarrow> string option \<Rightarrow> early_manager \<Rightarrow> bool \<times> early_manager" where
  "early_can D n optional w = query_internal D (early_desc n optional) w"

definition early_wait :: "early_manager \<Rightarrow> bool" where
  "early_wait w = (False \<notin> set (map snd (this_permissions w)))"

definition early_ensure :: "early_manager \<Rightarrow> error + unit" where
  "early_ensure w = (if \<not> early_wait w then Inl (Error ''Permission denied'') else Inr ())"

section \<open>The manager over a host whose promises may reject\<close>

text \<open>
  The definitions above take every host promise to resolve. Nothing in the manager
  catches a rejection, so the same methods are given here over settled promises that
  are either fulfilled with a value or rejected with an error: an \<^verbatim>\<open>await\<close> of a rejected
  promise rejects the promise of the enclosing \<^verbatim>\<open>async\<close> method with the same error.
\<close>

datatype 'a promise = Fulfilled 'a | Rejected error

record Deno_permissions_promises =
  request_promise :: "descriptor \<Rightarrow> GrantState promise"
  query_promise :: "descriptor \<Rightarrow> GrantState promise"

text \<open>\<^verbatim>\<open>const req = await p; return req.state === "granted"\<close> in an \<^verbatim>\<open>async\<close> method.\<close>

definition state_is_granted :: "GrantState promise \<Rightarrow> bool promise" where
  "state_is_granted p =
     (case p of Fulfilled s \<Rightarrow> Fulfilled (s = Granted) | Rejected e \<Rightarrow> Rejected e)"

text \<open>
  \<^verbatim>\<open>Promise.all\<close>: fulfilled with the values, in order, when every promise is fulfilled;
  rejected otherwise. When several promises reject, the promises are taken to settle
  in list order, so the error is that of the first rejected one in the list.
\<close>

fun Promise_all :: "'a promise list \<Rightarrow> 'a list promise" where
  "Promise_all [] = Fulfilled []"
| "Promise_all (Rejected e # ps) = Rejected e"
| "Promise_all (Fulfilled x # ps) =
     (case Promise_all ps of Rejected e \<Rightarrow> Rejected e | Fulfilled xs \<Rightarrow> Fulfilled (x # xs))"

type_synonym promise_manager = "bool promise list world"

definition promise_getInstance :: promise_manager where
  "promise_getInstance = \<lparr>this_permissions = [], requested = [], queried = []\<rparr>"

definition promise_requestPermission ::
    "Deno_permissions_promises \<Rightarrow> descriptor \<Rightarrow> 'p world \<Rightarrow> bool promise \<times> 'p world" where
  "promise_requestPermission H d w =
     (state_is_granted (request_promise H d), w\<lparr>requested := requested w @ [d]\<rparr>)"

definition promise_query ::
    "Deno_permissions_promises \<Rightarrow> descriptor \<Rightarrow> 'p world \<Rightarrow> bool promise \<times> 'p world" where
  "promise_query H d w =
     (state_is_granted (query_promise H d), w\<lparr>queried := queried w @ [d]\<rparr>)"

definition promise_push_request ::
    "Deno_permissions_promises \<Rightarrow> descriptor \<Rightarrow> promise_manager \<Rightarrow> promise_manager" where
  "promise_push_request H d w =
     (case promise_requestPermission H d w of
        (p, w') \<Rightarrow> w'\<lparr>this_permissions := this_permissions w' @ [p]\<rparr>)"

fun promise_pushPermission ::
    "Deno_permissions_promises \<Rightarrow> push_arg \<Rightarrow> promise_manager \<Rightarrow> promise_manager" where
  "promise_pushPermission H Star w =
     fold (\<lambda>n. promise_push_request H (unscoped n)) permissions w"
| "promise_pushPermission H (Perm d) w = promise_push_request H d w"

fun promise_permission ::
    "Deno_permissions_promises \<Rightarrow> PName \<Rightarrow> string MaybeArray option
       \<Rightarrow> promise_manager \<Rightarrow> promise_manager" where
  "promise_permission H n (Some (Many vs)) w =
     fold (\<lambda>v. promise_pushPermission H (Perm (desc1 n (Some v)))) vs w"
| "promise_permission H n (Some (One v)) w =
     promise_pushPermission H (Perm (desc1 n (Some v))) w"
| "promise_permission H n None w = promise_pushPermission H (Perm (desc1 n None)) w"

fun promise_query_each ::
    "Deno_permissions_promises \<Rightarrow> PName \<Rightarrow> string list \<Rightarrow> promise_manager
       \<Rightarrow> bool promise list \<times> promise_manager" where
  "promise_query_each H n [] w = ([], w)"
| "promise_query_each H n (v # vs) w =
     (case promise_query H (desc1 n (Some v)) w of
        (b, w') \<Rightarrow> (case promise_query_each H n vs w' of (bs, w'') \<Rightarrow> (b # bs, w'')))"

fun promise_can ::
    "Deno_permissions_promises \<Rightarrow> PName \<Rightarrow> string MaybeArray option \<Rightarrow> promise_manager
       \<Rightarrow> bool promise \<times> promise_manager" where
  "promise_can H n (Some (Many vs)) w =
     (case promise_query_each H n vs w of
        (ps, w') \<Rightarrow>
          (case Promise_all ps of
             Rejected e \<Rightarrow> (Rejected e, w')
           | Fulfilled bs \<Rightarrow> (Fulfilled (False \<in> set bs), w')))"
| "promise_can H n (Some (One v)) w = promise_query H (desc1 n (Some v)) w"
| "promise_can H n None w = promise_query H (desc1 n None) w"

definition promise_settle :: "promise_manager \<Rightarrow> bool promise" where
  "promise_settle w =
     (case Promise_all (this_permissions w) of
        Rejected e \<Rightarrow> Rejected e
      | Fulfilled bs \<Rightarrow> Fulfilled (False \<notin> set bs))"

definition promise_ensure :: "promise_manager \<Rightarrow> unit promise" where
  "promise_ensure w =
     (case promise_settle w of
        Rejected e \<Rightarrow> Rejected e
      | Fulfilled b \<Rightarrow> if \<not> b then Rejected (Error ''Permission denied'') else Fulfilled ())"

text \<open>What the caller of an \<^verbatim>\<open>async\<close> method sees when it awaits the result.\<close>

fun awaited :: "('a \<Rightarrow> outcome) \<Rightarrow> 'a promise \<Rightarrow> outcome" where
  "awaited f (Fulfilled x) = f x"
| "awaited f (Rejected e) = Thrown e"

text \<open>
  The public interface again; each shorthand is \<^verbatim>\<open>permission\<close> at its own name, and
  \<^verbatim>\<open>all\<close> is \<^verbatim>\<open>pushPermission("*")\<close>.
\<close>

fun promise_step ::
    "Deno_permissions_promises \<Rightarrow> call \<Rightarrow> promise_manager \<Rightarrow> outcome \<times> promise_manager" where
  "promise_step H Call_all w = (Returned_this, promise_pushPermission H Star w)"
| "promise_step H (Call_permission n v) w = (Returned_this, promise_permission H n v w)"
| "promise_step H (Call_env v) w = (Returned_this, promise_permission H Env v w)"
| "promise_step H (Call_read v) w = (Returned_this, promise_permission H Read v w)"
| "promise_step H (Call_write v) w = (Returned_this, promise_permission H Write v w)"
| "promise_step H (Call_net v) w = (Returned_this, promise_permission H Net v w)"
| "promise_step H (Call_run v) w = (Returned_this, promise_permission H Run v w)"
| "promise_step H (Call_ffi v) w = (Returned_this, promise_permission H Ffi v w)"
| "promise_step H Call_hrtime w = (Returned_this, promise_permission H Hrtime None w)"
| "promise_step H (Call_can n v) w =
     (case promise_can H n v w of (p, w') \<Rightarrow> (awaited Returned_bool p, w'))"
| "promise_step H Call_settle w = (awaited Returned_bool (promise_settle w), w)"
| "promise_step H Call_ensure w = (awaited (\<lambda>u. Returned_void) (promise_ensure w), w)"

text \<open>
  A host that always resolves, as a host of promises, and a manager whose promises all
  resolved, as a manager of promises.
\<close>

definition always_resolving :: "Deno_permissions \<Rightarrow> Deno_permissions_promises" where
  "always_resolving D =
     \<lparr>request_promise = (\<lambda>d. Fulfilled (request D d)),
      query_promise = (\<lambda>d. Fulfilled (query D d))\<rparr>"

definition resolved :: "manager \<Rightarrow> promise_manager" where
  "resolved w =
     \<lparr>this_permissions = map Fulfilled (this_permissions w),
      requested = requested w, queried = queried w\<rparr>"

section \<open>Hosts used in the examples\<close>

text \<open>
  A host that rejects the listed descriptors with the given error and grants every
  other one.
\<close>

definition host_rejecting :: "error \<Rightarrow> descriptor list \<Rightarrow> Deno_permissions_promises" where
  "host_rejecting e ds =
     \<lparr>request_promise = (\<lambda>d. if d \<in> set ds then Rejected e else Fulfilled Granted),
      query_promise = (\<lambda>d. if d \<in> set ds then Rejected e else Fulfilled Granted)\<rparr>"

text \<open>A host that grants exactly the listed descriptors and denies every other one.\<close>

definition host_granting :: "descriptor list \<Rightarrow> Deno_permissions" where
  "host_granting ds =
     \<lparr>request = (\<lambda>d. if d \<in> set ds then Granted else Denied),
      query = (\<lambda>d. if d \<in> set ds then Granted else Denied)\<rparr>"

text \<open>A host that grants everything.\<close>

definition host_granting_all :: Deno_permissions where
  "host_granting_all = \<lparr>request = (\<lambda>d. Granted), query = (\<lambda>d. Granted)\<rparr>"


section \<open>What an accumulation does to the state\<close>

lemma push_request_eq:
  "push_request D d w =
     w\<lparr>this_permissions := this_permissions w @ [request D d = Granted],
       requested := requested w @ [d]\<rparr>"
  by (simp add: push_request_def requestPermission_def)

lemma fold_push_request_eq:
  "fold (\<lambda>x. push_request D (f x)) xs w =
     w\<lparr>this_permissions := this_permissions w @ map (\<lambda>x. request D (f x) = Granted) xs,
       requested := requested w @ map f xs\<rparr>"
proof (induction xs arbitrary: w)
  case Nil
  show ?case by simp
next
  case (Cons x xs)
  show ?case by (simp add: Cons.IH) (simp add: push_request_eq)
qed

lemma pushPermission_Perm: "pushPermission D (Perm d) = push_request D d"
  by (rule ext) simp

lemma pushPermission_Star_eq:
  "pushPermission D Star w =
     w\<lparr>this_permissions :=
         this_permissions w @ map (\<lambda>n. request D (unscoped n) = Granted) permissions,
       requested := requested w @ map unscoped permissions\<rparr>"
  by (simp add: fold_push_request_eq)

text \<open>
  \<^verbatim>\<open>permission(name, o)\<close> pushes the descriptors that \<^verbatim>\<open>desc(name, o)\<close> builds, one request
  each, in order.
\<close>

lemma permission_eq:
  "permission D n v w =
     w\<lparr>this_permissions :=
         this_permissions w @ map (\<lambda>d. request D d = Granted) (elements (desc n v)),
       requested := requested w @ elements (desc n v)\<rparr>"
  by (cases "(n, v)" rule: desc.cases)
     (simp_all add: pushPermission_Perm fold_push_request_eq push_request_eq comp_def)

lemma funpow_push_request_eq:
  "(push_request D d ^^ N) w =
     w\<lparr>this_permissions := this_permissions w @ replicate N (request D d = Granted),
       requested := requested w @ replicate N d\<rparr>"
proof (induction N arbitrary: w)
  case 0
  show ?case by simp
next
  case (Suc N)
  show ?case
    by (simp add: funpow_swap1 Suc.IH) (simp add: push_request_eq replicate_append_same)
qed

section \<open>What a query does to the state\<close>

lemma query_internal_eq:
  "query_internal D d w = (query D d = Granted, w\<lparr>queried := queried w @ [d]\<rparr>)"
  by (simp add: query_internal_def)

lemma query_each_eq:
  "query_each D n vs w =
     (map (\<lambda>v. query D (desc1 n (Some v)) = Granted) vs,
      w\<lparr>queried := queried w @ map (\<lambda>v. desc1 n (Some v)) vs\<rparr>)"
  by (induction vs arbitrary: w) (simp_all add: query_internal_eq)

text \<open>
  The result of \<^verbatim>\<open>can\<close>: on a list, whether the answers include \<^verbatim>\<open>false\<close>; the queries
  are those of the descriptors \<^verbatim>\<open>desc(n, o)\<close> builds.
\<close>

lemma can_eq:
  "can D n v w =
     (case v of
        Some (Many vs) \<Rightarrow> False \<in> set (map (\<lambda>v. query D (desc1 n (Some v)) = Granted) vs)
      | Some (One x) \<Rightarrow> query D (desc1 n (Some x)) = Granted
      | None \<Rightarrow> query D (desc1 n None) = Granted,
      w\<lparr>queried := queried w @ elements (desc n v)\<rparr>)"
  by (cases "(n, v)" rule: desc.cases) (simp_all add: query_each_eq query_internal_eq)

section \<open>The steps of the public interface\<close>

lemma step_accumulates:
  "\<exists>ds. this_permissions (snd (step D c w))
            = this_permissions w @ map (\<lambda>d. request D d = Granted) ds
      \<and> requested (snd (step D c w)) = requested w @ ds"
proof (cases c)
  case Call_all
  then show ?thesis by (simp add: pm_all_def fold_push_request_eq)
next
  case (Call_can n v)
  then show ?thesis by (simp add: can_eq)
next
  case Call_ensure
  then show ?thesis by (simp add: ensure_def)
qed (auto simp: permission_eq pm_env_def pm_read_def pm_write_def pm_net_def pm_run_def
       pm_ffi_def pm_hrtime_def)

lemma run_calls_Nil: "run_calls D [] w = w"
  by (simp add: run_calls_def)

lemma run_calls_Cons: "run_calls D (c # cs) w = run_calls D cs (snd (step D c w))"
  by (simp add: run_calls_def)

lemma run_calls_accumulates:
  "\<exists>ds. this_permissions (run_calls D cs w)
            = this_permissions w @ map (\<lambda>d. request D d = Granted) ds
      \<and> requested (run_calls D cs w) = requested w @ ds"
proof (induction cs arbitrary: w)
  case Nil
  show ?case by (simp add: run_calls_Nil)
next
  case (Cons c cs)
  obtain ds where ds:
    "this_permissions (snd (step D c w))
       = this_permissions w @ map (\<lambda>d. request D d = Granted) ds"
    "requested (snd (step D c w)) = requested w @ ds"
    using step_accumulates by blast
  obtain es where es:
    "this_permissions (run_calls D cs (snd (step D c w)))
       = this_permissions (snd (step D c w)) @ map (\<lambda>d. request D d = Granted) es"
    "requested (run_calls D cs (snd (step D c w))) = requested (snd (step D c w)) @ es"
    using Cons.IH by blast
  have "this_permissions (run_calls D (c # cs) w)
          = this_permissions w @ map (\<lambda>d. request D d = Granted) (ds @ es)"
    by (simp add: run_calls_Cons ds es)
  moreover have "requested (run_calls D (c # cs) w) = requested w @ (ds @ es)"
    by (simp add: run_calls_Cons ds es)
  ultimately show ?case by blast
qed

text \<open>
  In every state reached from a fresh manager, the tracked promises are the host's
  answers to the requests issued, in the order of the requests.
\<close>

lemma reachable_permissions:
  "this_permissions (run_calls D cs getInstance)
     = map (\<lambda>d. request D d = Granted) (requested (run_calls D cs getInstance))"
proof -
  obtain ds where
    "this_permissions (run_calls D cs getInstance)
       = this_permissions getInstance @ map (\<lambda>d. request D d = Granted) ds"
    "requested (run_calls D cs getInstance) = requested getInstance @ ds"
    using run_calls_accumulates by blast
  then show ?thesis by (simp add: getInstance_def)
qed

lemma no_False_iff: "False \<notin> set bs \<longleftrightarrow> (\<forall>p \<in> set bs. p)"
  by (induction bs) auto

section \<open>The earlier manager: one entry per capability name\<close>

lemma set_request_eq:
  "set_request D k d w =
     w\<lparr>this_permissions := AList.update k (request D d = Granted) (this_permissions w),
       requested := requested w @ [d]\<rparr>"
  by (simp add: set_request_def requestPermission_def)

lemma has_set_request: "has (set_request D k d w) k' \<longleftrightarrow> k' = k \<or> has w k'"
  by (auto simp: has_def set_request_eq dom_update)

text \<open>
  A descriptor whose name has an entry already is dropped without a host request,
  whatever its scope; otherwise it is requested once and stored under its name.
\<close>

lemma early_pushPermission_Perm_requested:
  "requested (early_pushPermission D (Perm d) w)
     = (if has w (name d) then requested w else requested w @ [d])"
  by (simp add: set_request_eq)

lemma early_pushPermission_Perm_idem:
  "early_pushPermission D (Perm d) (early_pushPermission D (Perm d) w)
     = early_pushPermission D (Perm d) w"
  by (simp add: has_set_request)

lemma early_fold_requested:
  "distinct ns \<Longrightarrow>
   requested (fold (\<lambda>n w'. if has w' n then w' else set_request D n (unscoped n) w') ns w)
     = requested w @ map unscoped (filter (\<lambda>n. \<not> has w n) ns)"
proof (induction ns arbitrary: w)
  case Nil
  show ?case by simp
next
  case (Cons n ns)
  let ?w' = "if has w n then w else set_request D n (unscoped n) w"
  have same: "filter (\<lambda>m. \<not> has ?w' m) ns = filter (\<lambda>m. \<not> has w m) ns"
    using Cons.prems by (intro filter_cong) (auto simp: has_set_request)
  have "requested ?w' = requested w @ map unscoped (filter (\<lambda>m. \<not> has w m) [n])"
    by (simp add: set_request_eq)
  moreover have "requested (fold (\<lambda>n w'. if has w' n then w' else set_request D n (unscoped n) w') ns ?w')
      = requested ?w' @ map unscoped (filter (\<lambda>m. \<not> has ?w' m) ns)"
    using Cons.prems by (intro Cons.IH) simp
  ultimately show ?case
    by (simp add: same)
qed

text \<open>
  The earlier \<^verbatim>\<open>all()\<close> requests the unscoped descriptor of exactly the names that have no
  entry yet.
\<close>

lemma early_all_requested:
  "requested (early_all D w) = requested w @ map unscoped (filter (\<lambda>n. \<not> has w n) permissions)"
proof -
  have "distinct permissions" by (simp add: permissions_def)
  then show ?thesis by (simp add: early_all_def early_fold_requested)
qed

text \<open>
  The key is the name alone: after \<^verbatim>\<open>read("a")\<close>, \<^verbatim>\<open>read("b")\<close> issues no request, and
  \<^verbatim>\<open>read("a")\<close> again issues none either.
\<close>

lemma early_read_second_scope_dropped:
  "requested (early_read host_granting_all (Some ''b'')
       (early_read host_granting_all (Some ''a'') early_getInstance))
     = [(unscoped Read)\<lparr>path := Some ''a''\<rparr>]
   \<and> requested (early_read host_granting_all (Some ''a'')
       (early_read host_granting_all (Some ''a'') early_getInstance))
     = [(unscoped Read)\<lparr>path := Some ''a''\<rparr>]"
  by (simp add: early_read_def early_getInstance_def has_def set_request_eq unscoped_def)

section \<open>The manager over promises that may reject\<close>

lemma promise_push_request_eq:
  "promise_push_request H d w =
     w\<lparr>this_permissions := this_permissions w @ [state_is_granted (request_promise H d)],
       requested := requested w @ [d]\<rparr>"
  by (simp add: promise_push_request_def promise_requestPermission_def)

lemma fold_promise_push_request_eq:
  "fold (\<lambda>x. promise_push_request H (f x)) xs w =
     w\<lparr>this_permissions :=
         this_permissions w @ map (\<lambda>x. state_is_granted (request_promise H (f x))) xs,
       requested := requested w @ map f xs\<rparr>"
proof (induction xs arbitrary: w)
  case Nil
  show ?case by simp
next
  case (Cons x xs)
  show ?case by (simp add: Cons.IH) (simp add: promise_push_request_eq)
qed

lemma promise_pushPermission_Perm:
  "promise_pushPermission H (Perm d) = promise_push_request H d"
  by (rule ext) simp

lemma promise_permission_eq:
  "promise_permission H n v w =
     w\<lparr>this_permissions :=
         this_permissions w
           @ map (\<lambda>d. state_is_granted (request_promise H d)) (elements (desc n v)),
       requested := requested w @ elements (desc n v)\<rparr>"
  by (cases "(n, v)" rule: desc.cases)
     (simp_all add: promise_pushPermission_Perm fold_promise_push_request_eq
        promise_push_request_eq comp_def)

lemma promise_query_each_eq:
  "promise_query_each H n vs w =
     (map (\<lambda>v. state_is_granted (query_promise H (desc1 n (Some v)))) vs,
      w\<lparr>queried := queried w @ map (\<lambda>v. desc1 n (Some v)) vs\<rparr>)"
  by (induction vs arbitrary: w) (simp_all add: promise_query_def)

lemma Promise_all_Fulfilled: "Promise_all (map Fulfilled xs) = Fulfilled xs"
  by (induction xs) simp_all

lemma Promise_all_Rejected:
  "Promise_all ps = Rejected e \<Longrightarrow> Rejected e \<in> set ps"
proof (induction ps rule: Promise_all.induct)
  case 1
  then show ?case by simp
next
  case (2 e' ps)
  then show ?case by simp
next
  case (3 x ps)
  then show ?case by (auto split: promise.splits)
qed

lemma Promise_all_map_Fulfilled:
  "Promise_all (map (\<lambda>x. Fulfilled (g x)) xs) = Fulfilled (map g xs)"
  by (induction xs) simp_all

lemma Promise_all_FulfilledD:
  "Promise_all ps = Fulfilled xs \<Longrightarrow> ps = map Fulfilled xs"
proof (induction ps arbitrary: xs rule: Promise_all.induct)
  case 1
  then show ?case by simp
next
  case (2 e ps)
  then show ?case by simp
next
  case (3 x ps)
  then show ?case by (auto split: promise.splits)
qed

text \<open>
  Over a host that always resolves, the manager over promises does what the manager
  above does, call by call: the same outcome and the same state.
\<close>

lemma promise_step_always_resolving:
  "promise_step (always_resolving D) c (resolved w)
     = (fst (step D c w), resolved (snd (step D c w)))"
proof (cases c)
  case Call_all
  then show ?thesis
    by (simp add: pm_all_def fold_push_request_eq fold_promise_push_request_eq
          always_resolving_def resolved_def state_is_granted_def comp_def)
next
  case (Call_can n v)
  then show ?thesis
    by (cases "(n, v)" rule: desc.cases)
       (simp_all add: query_each_eq query_internal_eq promise_query_each_eq promise_query_def
          always_resolving_def resolved_def state_is_granted_def Promise_all_map_Fulfilled)
next
  case Call_settle
  then show ?thesis
    by (simp add: promise_settle_def settle_def resolved_def Promise_all_Fulfilled)
next
  case Call_ensure
  then show ?thesis
    by (simp add: promise_ensure_def promise_settle_def ensure_def settle_def resolved_def
          Promise_all_Fulfilled)
qed (simp_all add: permission_eq promise_permission_eq pm_env_def pm_read_def pm_write_def
       pm_net_def pm_run_def pm_ffi_def pm_hrtime_def always_resolving_def resolved_def
       state_is_granted_def comp_def)

text \<open>
  When every tracked promise is fulfilled, \<^verbatim>\<open>ensure()\<close> rejects with "Permission denied"
  exactly when one of them is false. In general its error is "Permission denied" or the
  error of a tracked promise that rejected.
\<close>

lemma promise_ensure_all_fulfilled:
  "this_permissions w = map Fulfilled bs \<Longrightarrow>
   promise_settle w = Fulfilled (False \<notin> set bs)
   \<and> promise_ensure w = (if False \<in> set bs then Rejected PermissionDenied else Fulfilled ())"
  by (simp add: promise_ensure_def promise_settle_def Promise_all_Fulfilled
        PermissionDenied_def)

lemma promise_ensure_error:
  "promise_ensure w = Rejected e \<Longrightarrow>
   e = PermissionDenied \<or> Rejected e \<in> set (this_permissions w)"
  by (auto simp: promise_ensure_def promise_settle_def PermissionDenied_def
        split: promise.splits if_splits dest: Promise_all_Rejected)

lemma promise_settle_rejects:
  "Rejected e \<in> set (this_permissions w) \<Longrightarrow>
   \<exists>e'. promise_settle w = Rejected e' \<and> promise_ensure w = Rejected e'"
proof -
  assume rej: "Rejected e \<in> set (this_permissions w)"
  have "\<exists>e'. Promise_all (this_permissions w) = Rejected e'"
  proof (cases "Promise_all (this_permissions w)")
    case (Fulfilled xs)
    then have "this_permissions w = map Fulfilled xs"
      by (rule Promise_all_FulfilledD)
    with rej show ?thesis by auto
  next
    case (Rejected e')
    then show ?thesis by blast
  qed
  then show ?thesis
    by (auto simp: promise_settle_def promise_ensure_def)
qed

text \<open>
  In the manager whose promises all resolve, \<^verbatim>\<open>ensure()\<close> throws "Permission denied"
  exactly when a tracked promise is false.
\<close>

lemma ensure_eq:
  "ensure w = (if False \<in> set (this_permissions w) then Inl PermissionDenied else Inr ())"
  by (simp add: ensure_def settle_def PermissionDenied_def)

text \<open>
  Over a host that always resolves, the only call that throws is \<^verbatim>\<open>ensure()\<close>, and its
  only error is "Permission denied".
\<close>

lemma step_Thrown_iff:
  "fst (step D c w) = Thrown e
     \<longleftrightarrow> c = Call_ensure \<and> False \<in> set (this_permissions w) \<and> e = PermissionDenied"
  by (cases c) (auto simp: ensure_def settle_def PermissionDenied_def split: prod.splits)

section \<open>The claims\<close>

text \<open>
  C8: the internal request and query operations turn the host's state into a boolean
  that is true for \<open>Granted\<close> only; \<open>Denied\<close> and \<open>Prompt\<close> both give false.
\<close>

theorem request_and_query_true_only_when_granted:
  "fst (requestPermission D d w)
     = (case request D d of Granted \<Rightarrow> True | Denied \<Rightarrow> False | Prompt \<Rightarrow> False)
   \<and> fst (query_internal D d w)
     = (case query D d of Granted \<Rightarrow> True | Denied \<Rightarrow> False | Prompt \<Rightarrow> False)"
  by (cases "request D d"; cases "query D d")
     (simp_all add: requestPermission_def query_internal_def)


text \<open>
  C2: \<^verbatim>\<open>settle()\<close> is true exactly when every tracked promise resolved to true; in a state
  reached from a fresh manager that is exactly when the host granted every request that
  was issued. Nothing accumulated gives true.
\<close>

theorem settle_iff_every_tracked_granted:
  "(settle w \<longleftrightarrow> (\<forall>p \<in> set (this_permissions w). p))
   \<and> (settle (run_calls D cs getInstance)
        \<longleftrightarrow> (\<forall>d \<in> set (requested (run_calls D cs getInstance)). request D d = Granted))
   \<and> settle getInstance"
proof (intro conjI)
  show "settle w \<longleftrightarrow> (\<forall>p \<in> set (this_permissions w). p)"
    by (simp add: settle_def no_False_iff)
  show "settle (run_calls D cs getInstance)
          \<longleftrightarrow> (\<forall>d \<in> set (requested (run_calls D cs getInstance)). request D d = Granted)"
    by (simp add: settle_def reachable_permissions no_False_iff)
  show "settle getInstance"
    by (simp add: settle_def getInstance_def)
qed

theorem settle_iff_every_tracked_granted_witness:
  "settle \<lparr>this_permissions = [True, True], requested = [], queried = []\<rparr>
   \<and> \<not> settle \<lparr>this_permissions = [True, False], requested = [], queried = []\<rparr>
   \<and> \<not> settle (run_calls (host_granting [Permission_read (Some ''config.toml'')])
          [Call_read (Some (One ''config.toml'')), Call_write (Some (One ''test.log''))]
          getInstance)
   \<and> settle (run_calls
          (host_granting [Permission_read (Some ''config.toml''),
                          Permission_write (Some ''test.log'')])
          [Call_read (Some (One ''config.toml'')), Call_write (Some (One ''test.log''))]
          getInstance)"
  using
    settle_iff_every_tracked_granted
      [of "\<lparr>this_permissions = [True, True], requested = [], queried = []\<rparr>"
          "host_granting [Permission_read (Some ''config.toml'')]"
          "[Call_read (Some (One ''config.toml'')), Call_write (Some (One ''test.log''))]"]
    settle_iff_every_tracked_granted
      [of "\<lparr>this_permissions = [True, False], requested = [], queried = []\<rparr>"
          "host_granting [Permission_read (Some ''config.toml''),
                          Permission_write (Some ''test.log'')]"
          "[Call_read (Some (One ''config.toml'')), Call_write (Some (One ''test.log''))]"]
  by (simp add: run_calls_def pm_read_def pm_write_def permission_eq desc1_def
        Permission_read_def Permission_write_def unscoped_def host_granting_def getInstance_def)

text \<open>
  C4: over promises that all resolve, \<^verbatim>\<open>ensure()\<close> rejects with "Permission denied" when a
  tracked promise is false and is fulfilled when all are true or nothing is tracked. But
  a rejection by the host is not caught: with a host that rejects the request for
  \<^verbatim>\<open>read:a\<close> with some other error, after \<^verbatim>\<open>read("a")\<close> both \<^verbatim>\<open>settle()\<close> and \<^verbatim>\<open>ensure()\<close>
  fail with that error, and so does \<^verbatim>\<open>can("read", "a")\<close> when the query rejects. So
  "Permission denied" is not the only failure a caller can see.
\<close>

theorem host_rejection_escapes_settle_can_and_ensure:
  "promise_ensure \<lparr>this_permissions = [Fulfilled True, Fulfilled False],
       requested = [], queried = []\<rparr> = Rejected PermissionDenied
   \<and> promise_ensure \<lparr>this_permissions = [Fulfilled True, Fulfilled True],
       requested = [], queried = []\<rparr> = Fulfilled ()
   \<and> promise_ensure promise_getInstance = Fulfilled ()
   \<and> promise_settle
        (promise_permission (host_rejecting (Error ''host failure'') [Permission_read (Some ''a'')])
           Read (Some (One ''a'')) promise_getInstance)
       = Rejected (Error ''host failure'')
   \<and> promise_ensure
        (promise_permission (host_rejecting (Error ''host failure'') [Permission_read (Some ''a'')])
           Read (Some (One ''a'')) promise_getInstance)
       = Rejected (Error ''host failure'')
   \<and> fst (promise_can (host_rejecting (Error ''host failure'') [Permission_read (Some ''a'')])
           Read (Some (One ''a'')) promise_getInstance)
       = Rejected (Error ''host failure'')
   \<and> fst (promise_step (host_rejecting (Error ''host failure'') [Permission_read (Some ''a'')])
           Call_settle
           (snd (promise_step
              (host_rejecting (Error ''host failure'') [Permission_read (Some ''a'')])
              (Call_read (Some (One ''a''))) promise_getInstance)))
       = Thrown (Error ''host failure'')
   \<and> fst (promise_step (host_rejecting (Error ''host failure'') [Permission_read (Some ''a'')])
           Call_ensure
           (snd (promise_step
              (host_rejecting (Error ''host failure'') [Permission_read (Some ''a'')])
              (Call_read (Some (One ''a''))) promise_getInstance)))
       = Thrown (Error ''host failure'')
   \<and> Error ''host failure'' \<noteq> PermissionDenied"
  by (simp add: promise_ensure_def promise_settle_def promise_permission_eq promise_query_def
        promise_getInstance_def host_rejecting_def state_is_granted_def desc1_def
        PermissionDenied_def)

text \<open>
  C6: a query leaves the tracked promises and the host's request log as they were, so
  \<^verbatim>\<open>settle()\<close> is unchanged by it; after any sequence of \<^verbatim>\<open>can\<close> calls on a fresh manager
  \<^verbatim>\<open>settle()\<close> is still true.
\<close>

theorem can_leaves_tracked_requests_unchanged:
  "this_permissions (snd (can D n v w)) = this_permissions w
   \<and> requested (snd (can D n v w)) = requested w
   \<and> settle (snd (can D n v w)) = settle w
   \<and> settle (run_calls D (map (\<lambda>(n, v). Call_can n v) qs) getInstance)"
proof -
  have "this_permissions (run_calls D (map (\<lambda>(n, v). Call_can n v) qs) w) = this_permissions w"
    for w
  proof (induction qs arbitrary: w)
    case Nil
    show ?case by (simp add: run_calls_Nil)
  next
    case (Cons q qs)
    show ?case
      by (cases q) (simp add: run_calls_Cons Cons.IH can_eq)
  qed
  then have "settle (run_calls D (map (\<lambda>(n, v). Call_can n v) qs) getInstance)"
    by (simp add: settle_def getInstance_def)
  then show ?thesis
    by (simp add: can_eq settle_def)
qed

text \<open>
  C7: every call of the public interface keeps the tracked promises as a prefix of the
  new ones: entries are appended or the array is unchanged, and none is removed. The same
  holds over any sequence of calls.
\<close>

theorem tracked_requests_only_grow:
  "prefix (this_permissions w) (this_permissions (snd (step D c w)))
   \<and> prefix (this_permissions w) (this_permissions (run_calls D cs w))"
proof
  show "prefix (this_permissions w) (this_permissions (snd (step D c w)))"
    using step_accumulates [of D c w] by (auto simp: prefix_def)
  show "prefix (this_permissions w) (this_permissions (run_calls D cs w))"
    using run_calls_accumulates [of D cs w] by (auto simp: prefix_def)
qed


text \<open>
  C1, as the code has it: there is no deduplication. Accumulating a descriptor \<open>N\<close> times,
  through \<^verbatim>\<open>pushPermission\<close>, through \<^verbatim>\<open>permission\<close> or through any of the shorthands
  \<^verbatim>\<open>env\<close>, \<^verbatim>\<open>read\<close>, \<^verbatim>\<open>write\<close>, \<^verbatim>\<open>net\<close>, \<^verbatim>\<open>run\<close>, \<^verbatim>\<open>ffi\<close>, \<^verbatim>\<open>hrtime\<close>, with a scope or
  without one, issues \<open>N\<close> host requests for it and tracks \<open>N\<close> promises, one per call,
  and changes nothing else; \<^verbatim>\<open>settle()\<close> afterwards is true exactly when it was true
  before and the host granted the descriptor (or \<open>N = 0\<close>). The scope \<open>v\<close> is an optional
  string: \<open>None\<close> is the call without argument.
\<close>

theorem accumulating_N_times_requests_N_times:
  "(pushPermission D (Perm d) ^^ N) w
     = w\<lparr>this_permissions := this_permissions w @ replicate N (request D d = Granted),
         requested := requested w @ replicate N d\<rparr>
   \<and> (settle ((pushPermission D (Perm d) ^^ N) w)
        \<longleftrightarrow> settle w \<and> (N = 0 \<or> request D d = Granted))
   \<and> (permission D n (map_option One v) ^^ N) w
     = w\<lparr>this_permissions := this_permissions w @ replicate N (request D (desc1 n v) = Granted),
         requested := requested w @ replicate N (desc1 n v)\<rparr>
   \<and> (settle ((permission D n (map_option One v) ^^ N) w)
        \<longleftrightarrow> settle w \<and> (N = 0 \<or> request D (desc1 n v) = Granted))
   \<and> (pm_env D (map_option One v) ^^ N) w
     = w\<lparr>this_permissions :=
           this_permissions w @ replicate N (request D (Permission_env v) = Granted),
         requested := requested w @ replicate N (Permission_env v)\<rparr>
   \<and> (settle ((pm_env D (map_option One v) ^^ N) w)
        \<longleftrightarrow> settle w \<and> (N = 0 \<or> request D (Permission_env v) = Granted))
   \<and> (pm_read D (map_option One v) ^^ N) w
     = w\<lparr>this_permissions :=
           this_permissions w @ replicate N (request D (Permission_read v) = Granted),
         requested := requested w @ replicate N (Permission_read v)\<rparr>
   \<and> (settle ((pm_read D (map_option One v) ^^ N) w)
        \<longleftrightarrow> settle w \<and> (N = 0 \<or> request D (Permission_read v) = Granted))
   \<and> (pm_write D (map_option One v) ^^ N) w
     = w\<lparr>this_permissions :=
           this_permissions w @ replicate N (request D (Permission_write v) = Granted),
         requested := requested w @ replicate N (Permission_write v)\<rparr>
   \<and> (settle ((pm_write D (map_option One v) ^^ N) w)
        \<longleftrightarrow> settle w \<and> (N = 0 \<or> request D (Permission_write v) = Granted))
   \<and> (pm_net D (map_option One v) ^^ N) w
     = w\<lparr>this_permissions :=
           this_permissions w @ replicate N (request D (Permission_net v) = Granted),
         requested := requested w @ replicate N (Permission_net v)\<rparr>
   \<and> (settle ((pm_net D (map_option One v) ^^ N) w)
        \<longleftrightarrow> settle w \<and> (N = 0 \<or> request D (Permission_net v) = Granted))
   \<and> (pm_run D (map_option One v) ^^ N) w
     = w\<lparr>this_permissions :=
           this_permissions w @ replicate N (request D (Permission_run v) = Granted),
         requested := requested w @ replicate N (Permission_run v)\<rparr>
   \<and> (settle ((pm_run D (map_option One v) ^^ N) w)
        \<longleftrightarrow> settle w \<and> (N = 0 \<or> request D (Permission_run v) = Granted))
   \<and> (pm_ffi D (map_option One v) ^^ N) w
     = w\<lparr>this_permissions :=
           this_permissions w @ replicate N (request D (Permission_ffi v) = Granted),
         requested := requested w @ replicate N (Permission_ffi v)\<rparr>
   \<and> (settle ((pm_ffi D (map_option One v) ^^ N) w)
        \<longleftrightarrow> settle w \<and> (N = 0 \<or> request D (Permission_ffi v) = Granted))
   \<and> (pm_hrtime D ^^ N) w
     = w\<lparr>this_permissions :=
           this_permissions w @ replicate N (request D Permission_hrtime = Granted),
         requested := requested w @ replicate N Permission_hrtime\<rparr>
   \<and> (settle ((pm_hrtime D ^^ N) w)
        \<longleftrightarrow> settle w \<and> (N = 0 \<or> request D Permission_hrtime = Granted))"
proof -
  have state: "(push_request D d ^^ N) w
      = w\<lparr>this_permissions := this_permissions w @ replicate N (request D d = Granted),
          requested := requested w @ replicate N d\<rparr>" for d
    by (rule funpow_push_request_eq)
  have verdict: "settle ((push_request D d ^^ N) w)
      \<longleftrightarrow> settle w \<and> (N = 0 \<or> request D d = Granted)" for d
    by (cases "N = 0") (auto simp: state settle_def)
  have perm: "permission D n (map_option One v) = push_request D (desc1 n v)" for n v
    by (rule ext) (cases v; simp)
  have sh_env: "pm_env D (map_option One v) = push_request D (Permission_env v)"
    by (rule ext) (simp add: pm_env_def perm desc1_def)
  have sh_read: "pm_read D (map_option One v) = push_request D (Permission_read v)"
    by (rule ext) (simp add: pm_read_def perm desc1_def)
  have sh_write: "pm_write D (map_option One v) = push_request D (Permission_write v)"
    by (rule ext) (simp add: pm_write_def perm desc1_def)
  have sh_net: "pm_net D (map_option One v) = push_request D (Permission_net v)"
    by (rule ext) (simp add: pm_net_def perm desc1_def)
  have sh_run: "pm_run D (map_option One v) = push_request D (Permission_run v)"
    by (rule ext) (simp add: pm_run_def perm desc1_def)
  have sh_ffi: "pm_ffi D (map_option One v) = push_request D (Permission_ffi v)"
    by (rule ext) (simp add: pm_ffi_def perm desc1_def)
  have sh_hrtime: "pm_hrtime D = push_request D Permission_hrtime"
    by (rule ext) (simp add: pm_hrtime_def desc1_def)
  show ?thesis
    unfolding pushPermission_Perm perm sh_env sh_read sh_write sh_net sh_run sh_ffi sh_hrtime
    by (intro conjI state verdict)
qed

text \<open>
  C1 as stated fails: on a fresh manager, \<^verbatim>\<open>read("a")\<close> twice reaches the host twice with
  the descriptor read:a and leaves two tracked promises.
\<close>

theorem accumulating_twice_requests_twice:
  "requested (pm_read host_granting_all (Some (One ''a''))
       (pm_read host_granting_all (Some (One ''a'')) getInstance))
     = [Permission_read (Some ''a''), Permission_read (Some ''a'')]
   \<and> length (this_permissions (pm_read host_granting_all (Some (One ''a''))
       (pm_read host_granting_all (Some (One ''a'')) getInstance))) = 2
   \<and> requested (pushPermission host_granting_all (Perm (Permission_read (Some ''a'')))
       (pushPermission host_granting_all (Perm (Permission_read (Some ''a''))) getInstance))
     = [Permission_read (Some ''a''), Permission_read (Some ''a'')]"
  by (simp add: pm_read_def permission_eq push_request_eq desc1_def getInstance_def)

text \<open>
  C3: the batch query does issue one query per scope value, in order, but its result is
  whether some answer is false. With the host granting both \<^verbatim>\<open>read:a\<close> and \<^verbatim>\<open>read:b\<close>,
  \<^verbatim>\<open>can("read", ["a", "b"])\<close> is false; with the host granting only \<^verbatim>\<open>read:a\<close> it is true.
\<close>

theorem can_batch_result_is_inverted:
  "can host_granting_all Read (Some (Many [''a'', ''b''])) getInstance
     = (False, getInstance\<lparr>queried := [Permission_read (Some ''a''), Permission_read (Some ''b'')]\<rparr>)
   \<and> query host_granting_all (Permission_read (Some ''a'')) = Granted
   \<and> query host_granting_all (Permission_read (Some ''b'')) = Granted
   \<and> fst (can (host_granting [Permission_read (Some ''a'')]) Read
            (Some (Many [''a'', ''b''])) getInstance) = True
   \<and> query (host_granting [Permission_read (Some ''a'')]) (Permission_read (Some ''b'')) = Denied"
  by (simp add: can_eq desc1_def getInstance_def host_granting_all_def host_granting_def
        Permission_read_def unscoped_def)

text \<open>
  C5, as the code has it: \<^verbatim>\<open>permission(name, list)\<close> issues and tracks one request per list
  element, in input order, each built by the single-value rule, and is the same as
  calling \<^verbatim>\<open>permission(name, v)\<close> for each element in turn. Nothing is deduplicated: a
  later \<^verbatim>\<open>permission(name, v)\<close> issues and tracks one more request.
\<close>

theorem permission_list_expands_in_order:
  "requested (permission D n (Some (Many vs)) w)
     = requested w @ map (\<lambda>v. desc1 n (Some v)) vs
   \<and> this_permissions (permission D n (Some (Many vs)) w)
     = this_permissions w @ map (\<lambda>v. request D (desc1 n (Some v)) = Granted) vs
   \<and> permission D n (Some (Many vs)) w = fold (\<lambda>v. permission D n (Some (One v))) vs w
   \<and> requested (permission D n (Some (One v)) (permission D n (Some (Many vs)) w))
     = requested w @ map (\<lambda>v. desc1 n (Some v)) vs @ [desc1 n (Some v)]
   \<and> length (this_permissions (permission D n (Some (One v)) (permission D n (Some (Many vs)) w)))
     = length (this_permissions w) + length vs + 1"
proof -
  have one: "(\<lambda>v. permission D n (Some (One v))) = (\<lambda>v. push_request D (desc1 n (Some v)))"
    by (intro ext) simp
  have expand: "permission D n (Some (Many vs)) w = fold (\<lambda>v. permission D n (Some (One v))) vs w"
    unfolding one by (simp add: pushPermission_Perm)
  have rest:
    "requested (permission D n (Some (Many vs)) w)
       = requested w @ map (\<lambda>v. desc1 n (Some v)) vs
     \<and> this_permissions (permission D n (Some (Many vs)) w)
       = this_permissions w @ map (\<lambda>v. request D (desc1 n (Some v)) = Granted) vs
     \<and> requested (permission D n (Some (One v)) (permission D n (Some (Many vs)) w))
       = requested w @ map (\<lambda>v. desc1 n (Some v)) vs @ [desc1 n (Some v)]
     \<and> length (this_permissions
          (permission D n (Some (One v)) (permission D n (Some (Many vs)) w)))
       = length (this_permissions w) + length vs + 1"
    by (simp add: permission_eq comp_def)
  from expand rest show ?thesis by blast
qed

text \<open>
  C5 as stated fails: after \<^verbatim>\<open>permission("read", ["a", "b", "c"])\<close> a later
  \<^verbatim>\<open>permission("read", "a")\<close> is not deduplicated against \<^verbatim>\<open>read:a\<close>; the host receives
  \<^verbatim>\<open>read:a\<close> a second time and four promises are tracked.
\<close>

theorem permission_list_then_single_not_deduplicated:
  "requested (permission host_granting_all Read (Some (One ''a''))
       (permission host_granting_all Read (Some (Many [''a'', ''b'', ''c''])) getInstance))
     = [Permission_read (Some ''a''), Permission_read (Some ''b''),
        Permission_read (Some ''c''), Permission_read (Some ''a'')]
   \<and> length (this_permissions (permission host_granting_all Read (Some (One ''a''))
       (permission host_granting_all Read (Some (Many [''a'', ''b'', ''c''])) getInstance))) = 4"
  by (simp add: permission_eq desc1_def getInstance_def)

text \<open>
  C9, as the code has it: \<^verbatim>\<open>all()\<close>, which is \<^verbatim>\<open>pushPermission("*")\<close>, issues and tracks
  exactly one unscoped request for each of env, read, write, net, run, hrtime and ffi,
  in that order, after whatever is tracked already and without comparing with it.
\<close>

theorem all_requests_every_kind_once:
  "pm_all D w = pushPermission D Star w
   \<and> requested (pm_all D w)
     = requested w @ [unscoped Env, unscoped Read, unscoped Write, unscoped Net,
                      unscoped Run, unscoped Hrtime, unscoped Ffi]
   \<and> this_permissions (pm_all D w)
     = this_permissions w @ map (\<lambda>d. request D d = Granted)
         [unscoped Env, unscoped Read, unscoped Write, unscoped Net,
          unscoped Run, unscoped Hrtime, unscoped Ffi]"
  by (simp add: pm_all_def permissions_def push_request_eq)

text \<open>
  C9 as stated fails: after \<^verbatim>\<open>read()\<close>, \<^verbatim>\<open>all()\<close> requests the unscoped read capability a
  second time; eight promises are tracked, not seven.
\<close>

theorem all_after_read_requests_read_again:
  "requested (pm_all host_granting_all (pm_read host_granting_all None getInstance))
     = [unscoped Read, unscoped Env, unscoped Read, unscoped Write, unscoped Net,
        unscoped Run, unscoped Hrtime, unscoped Ffi]
   \<and> length (this_permissions
        (pm_all host_granting_all (pm_read host_granting_all None getInstance))) = 8"
  by (simp add: pm_all_def pm_read_def permission_eq push_request_eq desc1_def
        permissions_def Permission_read_def unscoped_def getInstance_def)

text \<open>
  C10: in the earlier manager's \<^verbatim>\<open>desc\<close> the label \<^verbatim>\<open>"read" || "write" || "ffi"\<close> is the
  string \<^verbatim>\<open>"read"\<close>, so a scope given for write or ffi is dropped: \<^verbatim>\<open>can("write", p)\<close> and
  \<^verbatim>\<open>can("ffi", p)\<close> query the unscoped descriptor, while \<^verbatim>\<open>can("read", p)\<close> queries the one
  scoped to \<open>p\<close>.
\<close>

theorem early_desc_drops_scope_of_write_and_ffi:
  "js_or (js_or ''read'' ''write'') ''ffi'' = ''read''
   \<and> early_desc Write (Some p) = unscoped Write
   \<and> early_desc Ffi (Some p) = unscoped Ffi
   \<and> early_desc Read (Some p) = (unscoped Read)\<lparr>path := Some p\<rparr>
   \<and> early_can D Write (Some p) w
       = (query D (unscoped Write) = Granted, w\<lparr>queried := queried w @ [unscoped Write]\<rparr>)
   \<and> early_can D Ffi (Some p) w
       = (query D (unscoped Ffi) = Granted, w\<lparr>queried := queried w @ [unscoped Ffi]\<rparr>)
   \<and> early_can D Read (Some p) w
       = (query D ((unscoped Read)\<lparr>path := Some p\<rparr>) = Granted,
          w\<lparr>queried := queried w @ [(unscoped Read)\<lparr>path := Some p\<rparr>]\<rparr>)"
  by (simp add: js_or_def early_desc_def early_can_def query_internal_eq)

end
